theory Spec2Isabelle
  imports Main
begin

section \<open>Text, lines and JSON encoding\<close>

text \<open>
  Python text is modelled by \<^typ>\<open>string\<close>; a character stands for the code point with the
  same number, so the model covers the code points U+0000 to U+00FF. A file is the text it
  holds, \<open>None\<close> when the path does not exist. Files are written with the line separator LF.
\<close>

definition LF :: char where
  "LF = CHR 0x0A"

definition CR :: char where
  "CR = CHR 0x0D"

definition dquote :: char where
  "dquote = CHR 0x22"

definition backslash :: char where
  "backslash = CHR 0x5C"

text \<open>\<^verbatim>\<open>str.isspace\<close> on one character: the white space that \<^verbatim>\<open>str.strip()\<close> removes.\<close>

definition isspace :: "char \<Rightarrow> bool" where
  "isspace c =
     (let n = (of_char c :: nat)
      in (9 \<le> n \<and> n \<le> 13) \<or> (28 \<le> n \<and> n \<le> 32) \<or> n = 133 \<or> n = 160)"

definition strip :: "string \<Rightarrow> string" where
  "strip s = rev (dropWhile isspace (rev (dropWhile isspace s)))"

text \<open>
  Reading a text file opened with \<^verbatim>\<open>open("r")\<close>: universal newlines turn CR LF and a lone
  CR into LF, and iterating the file yields the lines, each with its LF, the last one
  without when the text does not end in a line separator.
\<close>

fun universal_newlines :: "string \<Rightarrow> string" where
  "universal_newlines [] = []"
| "universal_newlines [c] = [if c = CR then LF else c]"
| "universal_newlines (c # d # cs) =
     (if c = CR \<and> d = LF then LF # universal_newlines cs
      else if c = CR then LF # universal_newlines (d # cs)
      else c # universal_newlines (d # cs))"

fun split_lines :: "string \<Rightarrow> string \<Rightarrow> string list" where
  "split_lines cur [] = (if cur = [] then [] else [cur])"
| "split_lines cur (c # cs) =
     (if c = LF then (cur @ [c]) # split_lines [] cs else split_lines (cur @ [c]) cs)"

definition file_lines :: "string \<Rightarrow> string list" where
  "file_lines txt = split_lines [] (universal_newlines txt)"

text \<open>
  \<^verbatim>\<open>json.dumps\<close> with its default \<^verbatim>\<open>ensure_ascii=True\<close>, on a dictionary whose keys and
  values are strings: printable ASCII other than the quote and the backslash is copied,
  everything else is escaped.
\<close>

definition hex_digit :: "nat \<Rightarrow> char" where
  "hex_digit n = ''0123456789abcdef'' ! (n mod 16)"

definition escape_char :: "char \<Rightarrow> string" where
  "escape_char c =
     (let n = (of_char c :: nat)
      in if c = dquote then [backslash, dquote]
         else if c = backslash then [backslash, backslash]
         else if 32 \<le> n \<and> n \<le> 126 then [c]
         else if n = 10 then [backslash, CHR ''n'']
         else if n = 13 then [backslash, CHR ''r'']
         else if n = 9 then [backslash, CHR ''t'']
         else if n = 8 then [backslash, CHR ''b'']
         else if n = 12 then [backslash, CHR ''f'']
         else [backslash, CHR ''u'', hex_digit (n div 4096), hex_digit (n div 256),
               hex_digit (n div 16), hex_digit n])"

definition encode_basestring_ascii :: "string \<Rightarrow> string" where
  "encode_basestring_ascii s = [dquote] @ concat (map escape_char s) @ [dquote]"

fun join :: "string \<Rightarrow> string list \<Rightarrow> string" where
  "join sep [] = []"
| "join sep [x] = x"
| "join sep (x # y # ys) = x @ sep @ join sep (y # ys)"

definition json_dumps :: "(string \<times> string) list \<Rightarrow> string" where
  "json_dumps d =
     ''{'' @ join '', ''
        (map (\<lambda>(k, v). encode_basestring_ascii k @ '': '' @ encode_basestring_ascii v) d)
       @ ''}''"

section \<open>The completion service and the state of the world\<close>

text \<open>
  Modelled from the spec: the type of the response of \<^verbatim>\<open>client.chat.completions.create\<close>,
  which the client library declares. The program reads the list of choices, the optional
  message of the first choice with its content, and the name of the model that answered.
  The external completion service "returns zero or more candidate completions plus a model
  identifier string", and a completed outcome carries \<open>modelName\<close> and \<open>outputText\<close>: the
  content of a message and the model name are text.
\<close>

record chat_message =
  content :: string

record choice =
  message :: "chat_message option"

record chat_completion =
  choices :: "choice list"
  model :: string

text \<open>
  One call either raises a timeout (\<^verbatim>\<open>APITimeoutError\<close>, \<^verbatim>\<open>TimeoutException\<close>), raises
  another exception (the name of its type and its text), or returns a response.
\<close>

datatype outcome =
    Raise_timeout
  | Raise_exception string string
  | Return chat_completion

text \<open>
  The service is a function of its own state, the deployment name and the prompt. The world
  holds the two files beside the script and the state of the service.
\<close>

type_synonym 's service = "'s \<Rightarrow> string \<Rightarrow> string \<Rightarrow> outcome \<times> 's"

record 's world =
  cache_file :: "string option"
  results_file :: "string option"
  service_state :: 's

datatype py_error = KeyError | TypeError | JSONDecodeError

text \<open>What a run prints, logs, requests and writes, in the order in which it does so.\<close>

datatype event =
    Print_limit_already_reached int
  | Print_all_processed
  | Log_starting int int
  | Progress_bar int int
  | Log_processing int string
  | Submit int string string outcome
  | Log_timeout int
  | Log_error int string string string
  | Log_empty_choices int
  | Write_record string
  | Progress_update
  | Log_recorded int string
  | Print_limit_reached int
  | Client_close
  | Print_invalid_cache

section \<open>The result ledger\<close>

definition results_text :: "'s world \<Rightarrow> string" where
  "results_text w = (case results_file w of None \<Rightarrow> [] | Some txt \<Rightarrow> txt)"

definition count_lines :: "string \<Rightarrow> int" where
  "count_lines txt = int (length (filter (\<lambda>line. strip line \<noteq> []) (file_lines txt)))"

text \<open>\<^verbatim>\<open>count_existing_results\<close>: the count and the world it leaves.\<close>

definition count_existing_results :: "'s world \<Rightarrow> int \<times> 's world" where
  "count_existing_results w =
     (case results_file w of
        None \<Rightarrow> (0, w\<lparr>results_file := Some []\<rparr>)
      | Some txt \<Rightarrow> (count_lines txt, w))"

section \<open>Configuration and client\<close>

text \<open>
  The module constants \<^verbatim>\<open>STOP_AFTER_LIMIT\<close> and \<^verbatim>\<open>OUTPUT_LIMIT\<close> are the fields of a
  configuration, so that the properties below are stated for every limit; \<open>module_config\<close>
  holds the values the module assigns.
\<close>

record config =
  STOP_AFTER_LIMIT :: bool
  OUTPUT_LIMIT :: int

definition module_config :: config where
  "module_config = \<lparr>STOP_AFTER_LIMIT = True, OUTPUT_LIMIT = 1000\<rparr>"

type_synonym environ = "string \<rightharpoonup> string"

text \<open>\<^verbatim>\<open>os.environ[name]\<close> raises \<^verbatim>\<open>KeyError\<close> for a variable that is not set.\<close>

definition environ_get :: "environ \<Rightarrow> string \<Rightarrow> py_error + string" where
  "environ_get env name = (case env name of None \<Rightarrow> Inl KeyError | Some v \<Rightarrow> Inr v)"

record client =
  api_version :: string
  azure_endpoint :: string
  api_key :: string

definition create_client :: "environ \<Rightarrow> py_error + client" where
  "create_client env =
     (case environ_get env ''AZURE_OPENAI_API_ENDPOINT'' of
        Inl e \<Rightarrow> Inl e
      | Inr endpoint \<Rightarrow>
         (case environ_get env ''AZURE_OPENAI_API_MODEL'' of
            Inl e \<Rightarrow> Inl e
          | Inr deployment \<Rightarrow>
             (case environ_get env ''AZURE_OPENAI_API_KEY'' of
                Inl e \<Rightarrow> Inl e
              | Inr subscription_key \<Rightarrow>
                 (case environ_get env ''AZURE_OPENAI_API_VERSION'' of
                    Inl e \<Rightarrow> Inl e
                  | Inr version \<Rightarrow>
                      Inr \<lparr>api_version = version, azure_endpoint = endpoint,
                           api_key = subscription_key\<rparr>))))"

section \<open>The batch runner\<close>

text \<open>Python's \<^verbatim>\<open>xs[a:b]\<close> for any two integers, and \<^verbatim>\<open>enumerate\<close>.\<close>

definition slice_index :: "int \<Rightarrow> int \<Rightarrow> nat" where
  "slice_index n i = nat (if i < 0 then max 0 (i + n) else min i n)"

definition py_slice :: "'a list \<Rightarrow> int \<Rightarrow> int \<Rightarrow> 'a list" where
  "py_slice xs a b =
     (let n = int (length xs); lo = slice_index n a; hi = slice_index n b
      in take (hi - lo) (drop lo xs))"

definition enumerate_list :: "'a list \<Rightarrow> (nat \<times> 'a) list" where
  "enumerate_list xs = zip [0 ..< length xs] xs"

text \<open>\<^verbatim>\<open>prompt.replace("\n", " ")[:80]\<close>\<close>

definition prompt_preview_of :: "string \<Rightarrow> string" where
  "prompt_preview_of prompt = take 80 (map (\<lambda>c. if c = LF then CHR '' '' else c) prompt)"

text \<open>
  The body of the loop over the working slice, for the item at position \<open>index\<close> of the
  slice. \<open>Submit\<close> carries the \<open>absolute_index\<close> of the iteration that makes the request.
\<close>

definition process_item ::
  "'s service \<Rightarrow> string \<Rightarrow> int \<Rightarrow> nat \<Rightarrow> string \<Rightarrow> 's world \<Rightarrow> event list \<times> 's world" where
  "process_item create deployment_name processed_count index prompt w =
     (let absolute_index = processed_count + int index + 1;
          prompt_preview = prompt_preview_of prompt;
          (result, s) = create (service_state w) deployment_name prompt;
          w1 = w\<lparr>service_state := s\<rparr>;
          started = [Log_processing absolute_index prompt_preview,
                     Submit absolute_index deployment_name prompt result]
      in case result of
           Raise_timeout \<Rightarrow> (started @ [Log_timeout absolute_index], w1)
         | Raise_exception type_name text \<Rightarrow>
             (started @ [Log_error absolute_index type_name text prompt_preview], w1)
         | Return response \<Rightarrow>
             (case choices response of
                [] \<Rightarrow> (started @ [Log_empty_choices absolute_index], w1)
              | choice # _ \<Rightarrow>
                  let message_content =
                        (case message choice of Some m \<Rightarrow> content m | None \<Rightarrow> []);
                      model_name = model response;
                      record = [(''prompt'', prompt), (''model'', model_name),
                                (''output'', message_content)];
                      written = json_dumps record @ [LF]
                  in (started @ [Write_record written, Progress_update,
                                 Log_recorded absolute_index model_name],
                      w1\<lparr>results_file := Some (results_text w1 @ written)\<rparr>)))"

fun run_items ::
  "'s service \<Rightarrow> string \<Rightarrow> int \<Rightarrow> (nat \<times> string) list \<Rightarrow> 's world \<Rightarrow> event list \<times> 's world" where
  "run_items create deployment_name processed_count [] w = ([], w)"
| "run_items create deployment_name processed_count ((index, prompt) # rest) w =
     (let (evs1, w1) = process_item create deployment_name processed_count index prompt w;
          (evs2, w2) = run_items create deployment_name processed_count rest w1
      in (evs1 @ evs2, w2))"

text \<open>
  \<^verbatim>\<open>process_prompts\<close>: the exception that ends the run, if any, what the run did, and the
  world it leaves. Opening the results file for appending creates it when it is missing.
  Runs that the operator interrupts are outside the model.
\<close>

definition process_prompts ::
  "config \<Rightarrow> environ \<Rightarrow> 's service \<Rightarrow> string list \<Rightarrow> 's world
     \<Rightarrow> py_error option \<times> event list \<times> 's world" where
  "process_prompts cfg env create prompts w0 =
     (let total_prompts = int (length prompts);
          (processed_count, w) = count_existing_results w0
      in if STOP_AFTER_LIMIT cfg \<and> processed_count \<ge> OUTPUT_LIMIT cfg
         then (None, [Print_limit_already_reached (OUTPUT_LIMIT cfg)], w)
         else
           let remaining_capacity =
                 (if STOP_AFTER_LIMIT cfg then OUTPUT_LIMIT cfg - processed_count
                  else total_prompts - processed_count)
           in if remaining_capacity \<le> 0 then (None, [Print_all_processed], w)
              else if processed_count \<ge> total_prompts then (None, [Print_all_processed], w)
              else
                case create_client env of
                  Inl e \<Rightarrow> (Some e, [], w)
                | Inr client \<Rightarrow>
                   (case environ_get env ''AZURE_OPENAI_API_MODEL'' of
                      Inl e \<Rightarrow> (Some e, [], w)
                    | Inr deployment_name \<Rightarrow>
                        let w_open = w\<lparr>results_file := Some (results_text w)\<rparr>;
                            max_total = processed_count
                              + min remaining_capacity (total_prompts - processed_count);
                            prompts_to_process =
                              py_slice prompts processed_count
                                (processed_count + remaining_capacity);
                            (evs, w') = run_items create deployment_name processed_count
                                          (enumerate_list prompts_to_process) w_open
                        in (None,
                            [Log_starting (int (length prompts_to_process)) processed_count,
                             Progress_bar max_total processed_count]
                            @ evs
                            @ (if STOP_AFTER_LIMIT cfg
                                  \<and> processed_count + int (length prompts_to_process)
                                      \<ge> OUTPUT_LIMIT cfg
                               then [Print_limit_reached (OUTPUT_LIMIT cfg)] else [])
                            @ [Client_close],
                            w')))"

text \<open>Several runs one after the other, each with its environment and its prompts.\<close>

fun run_sequence ::
  "config \<Rightarrow> 's service \<Rightarrow> (environ \<times> string list) list \<Rightarrow> 's world \<Rightarrow> 's world" where
  "run_sequence cfg create [] w = w"
| "run_sequence cfg create ((env, prompts) # runs) w =
     run_sequence cfg create runs (snd (snd (process_prompts cfg env create prompts w)))"

text \<open>What is read off a run: the requests made, the text written, the limit reports.\<close>

fun submissions :: "event list \<Rightarrow> (int \<times> string \<times> outcome) list" where
  "submissions [] = []"
| "submissions (Submit i d p r # evs) = (i, p, r) # submissions evs"
| "submissions (_ # evs) = submissions evs"

fun written_text :: "event list \<Rightarrow> string list" where
  "written_text [] = []"
| "written_text (Write_record line # evs) = line # written_text evs"
| "written_text (_ # evs) = written_text evs"

section \<open>The prompt source\<close>

text \<open>
  What \<^verbatim>\<open>json.loads\<close> returns. A float is a mantissa and a binary exponent, an infinity
  with its sign, or NaN. \<^verbatim>\<open>json.loads\<close> itself is a parameter \<open>loads\<close> of the model:
  \<open>None\<close> stands for \<^verbatim>\<open>JSONDecodeError\<close>. A dictionary is the list of its items, each
  key once.
\<close>

datatype py_float = Finite int int | Infinity bool | NaN

datatype py_value =
    PyNone
  | PyBool bool
  | PyInt int
  | PyFloat py_float
  | PyStr string
  | PyList "py_value list"
  | PyDict "(string \<times> py_value) list"

text \<open>\<^verbatim>\<open>value[key]\<close> for a string \<open>key\<close>\<close>

definition subscript :: "py_value \<Rightarrow> string \<Rightarrow> py_error + py_value" where
  "subscript v key =
     (case v of
        PyDict items \<Rightarrow> (case map_of items key of None \<Rightarrow> Inl KeyError | Some x \<Rightarrow> Inr x)
      | _ \<Rightarrow> Inl TypeError)"

text \<open>
  \<^verbatim>\<open>[json.loads(line)["prompt"] for line in cache_file if line.strip()]\<close>: the first
  exception ends the comprehension.
\<close>

fun read_cache :: "(string \<Rightarrow> py_value option) \<Rightarrow> string list \<Rightarrow> py_error + py_value list" where
  "read_cache loads [] = Inr []"
| "read_cache loads (line # rest) =
     (if strip line \<noteq> [] then
        (case loads line of
           None \<Rightarrow> Inl JSONDecodeError
         | Some v \<Rightarrow>
            (case subscript v ''prompt'' of
               Inl e \<Rightarrow> Inl e
             | Inr p \<Rightarrow>
                (case read_cache loads rest of
                   Inl e \<Rightarrow> Inl e
                 | Inr ps \<Rightarrow> Inr (p # ps))))
      else read_cache loads rest)"

text \<open>
  The second half of \<^verbatim>\<open>load_prompts\<close>: \<open>dataset\<close> is the prompt column of the upstream
  dataset, in its order; the cache is rewritten from it.
\<close>

definition fetch_prompts :: "string list \<Rightarrow> 's world \<Rightarrow> py_value list \<times> 's world" where
  "fetch_prompts dataset w =
     (let prompts = dataset
      in (map PyStr prompts,
          w\<lparr>cache_file :=
               Some (concat (map (\<lambda>prompt. json_dumps [(''prompt'', prompt)] @ [LF]) prompts))\<rparr>))"

definition load_prompts ::
  "(string \<Rightarrow> py_value option) \<Rightarrow> string list \<Rightarrow> 's world
     \<Rightarrow> (py_error + py_value list) \<times> event list \<times> 's world" where
  "load_prompts loads dataset w =
     (case cache_file w of
        None \<Rightarrow> (let (prompts, w') = fetch_prompts dataset w in (Inr prompts, [], w'))
      | Some txt \<Rightarrow>
         (case read_cache loads (file_lines txt) of
            Inr prompts \<Rightarrow> (Inr prompts, [], w)
          | Inl e \<Rightarrow>
             if e = JSONDecodeError \<or> e = KeyError
             then (let (prompts, w') = fetch_prompts dataset (w\<lparr>cache_file := None\<rparr>)
                   in (Inr prompts, [Print_invalid_cache], w'))
             else (Inl e, [], w)))"

section \<open>Notions used to state the properties\<close>

text \<open>
  The number of records of the ledger, as \<open>count_existing_results\<close> counts them, and the world
  after the results file has been created or opened for appending.
\<close>

definition record_count :: "'s world \<Rightarrow> int" where
  "record_count w = count_lines (results_text w)"

definition opened :: "'s world \<Rightarrow> 's world" where
  "opened w = w\<lparr>results_file := Some (results_text w)\<rparr>"

text \<open>The four variables \<open>create_client\<close> and \<open>process_prompts\<close> read are set.\<close>

definition configured :: "environ \<Rightarrow> bool" where
  "configured env \<longleftrightarrow>
     env ''AZURE_OPENAI_API_ENDPOINT'' \<noteq> None \<and> env ''AZURE_OPENAI_API_MODEL'' \<noteq> None
     \<and> env ''AZURE_OPENAI_API_KEY'' \<noteq> None \<and> env ''AZURE_OPENAI_API_VERSION'' \<noteq> None"

text \<open>
  The remaining budget and the working slice in the words of the specification:
  \<open>remaining = min (outputLimit - processedCount) (totalPrompts - processedCount)\<close> if
  limited, else \<open>totalPrompts - processedCount\<close>; the slice is the prompts at the indices
  from \<open>processedCount\<close> up to, not including, \<open>processedCount + remaining\<close>.
\<close>

definition remaining :: "config \<Rightarrow> int \<Rightarrow> int \<Rightarrow> int" where
  "remaining cfg processedCount totalPrompts =
     (if STOP_AFTER_LIMIT cfg
      then min (OUTPUT_LIMIT cfg - processedCount) (totalPrompts - processedCount)
      else totalPrompts - processedCount)"

definition working_slice :: "config \<Rightarrow> string list \<Rightarrow> int \<Rightarrow> string list" where
  "working_slice cfg prompts processedCount =
     take (nat (remaining cfg processedCount (int (length prompts))))
       (drop (nat processedCount) prompts)"

text \<open>
  The outcome \<open>Completed\<close> of the specification is a response with at least one choice; a
  request that is not completed is skipped. \<open>result_record\<close> is the record of a completed
  request and \<open>record_text\<close> the text written for it; \<open>expected_writes\<close> collects the texts
  for the completed requests of a list.
\<close>

definition completed :: "outcome \<Rightarrow> bool" where
  "completed r = (case r of Return response \<Rightarrow> choices response \<noteq> [] | _ \<Rightarrow> False)"

definition skipped :: "int \<times> string \<times> outcome \<Rightarrow> bool" where
  "skipped s = (case s of (i, p, r) \<Rightarrow> \<not> completed r)"

definition output_text :: "chat_completion \<Rightarrow> string" where
  "output_text response =
     (case choices response of
        [] \<Rightarrow> []
      | choice # _ \<Rightarrow> (case message choice of Some m \<Rightarrow> content m | None \<Rightarrow> []))"

definition result_record :: "string \<Rightarrow> chat_completion \<Rightarrow> (string \<times> string) list" where
  "result_record prompt response =
     [(''prompt'', prompt), (''model'', model response), (''output'', output_text response)]"

definition record_text :: "int \<times> string \<times> outcome \<Rightarrow> string" where
  "record_text s =
     (case s of (i, p, r) \<Rightarrow>
        (case r of Return response \<Rightarrow> json_dumps (result_record p response) @ [LF] | _ \<Rightarrow> []))"

fun expected_writes :: "(int \<times> string \<times> outcome) list \<Rightarrow> string list" where
  "expected_writes [] = []"
| "expected_writes ((i, p, Return response) # rest) =
     (if choices response = [] then expected_writes rest
      else (json_dumps (result_record p response) @ [LF]) # expected_writes rest)"
| "expected_writes (_ # rest) = expected_writes rest"


text \<open>
  The lines of a text that are terminated, and the unterminated rest: \<open>split_lines\<close> yields
  the former followed by the latter when it is not empty. A ledger line is a non-blank line
  without a line break inside, ended by LF.
\<close>

fun pending_line :: "string \<Rightarrow> string \<Rightarrow> string" where
  "pending_line cur [] = cur"
| "pending_line cur (c # cs) = (if c = LF then pending_line [] cs else pending_line (cur @ [c]) cs)"

fun complete_lines :: "string \<Rightarrow> string \<Rightarrow> string list" where
  "complete_lines cur [] = []"
| "complete_lines cur (c # cs) =
     (if c = LF then (cur @ [c]) # complete_lines [] cs else complete_lines (cur @ [c]) cs)"

definition complete_count :: "string \<Rightarrow> int" where
  "complete_count t =
     int (length (filter (\<lambda>line. strip line \<noteq> []) (complete_lines [] (universal_newlines t))))"

definition pending_of :: "string \<Rightarrow> string" where
  "pending_of t = pending_line [] (universal_newlines t)"

definition record_line :: "string \<Rightarrow> bool" where
  "record_line body \<longleftrightarrow> LF \<notin> set body \<and> CR \<notin> set body \<and> strip body \<noteq> []"

definition ledger_line :: "string \<Rightarrow> bool" where
  "ledger_line l \<longleftrightarrow> l \<noteq> [] \<and> last l = LF \<and> record_line (butlast l)"

definition printable :: "char \<Rightarrow> bool" where
  "printable c \<longleftrightarrow> 32 \<le> (of_char c :: nat) \<and> (of_char c :: nat) \<le> 126"

section \<open>Reading a ledger record\<close>







section \<open>Concrete worlds, services and configurations\<close>

text \<open>
  The inputs at which the properties are evaluated: ledgers, an environment with the four
  variables, services that answer every prompt, that time out on the prompt b, that answer
  without a message or with empty content, and a stand-in for \<open>json.loads\<close> on three lines.
\<close>

definition no_ledger :: "unit world" where
  "no_ledger = \<lparr>cache_file = None, results_file = None, service_state = ()\<rparr>"

definition two_records :: "unit world" where
  "two_records =
     \<lparr>cache_file = None, results_file = Some ''{x}\<newline>{y}\<newline>'', service_state = ()\<rparr>"

definition ledger_with_blank_lines :: "unit world" where
  "ledger_with_blank_lines =
     \<lparr>cache_file = None, results_file = Some ''{a}\<newline>\<newline>  \<newline>{b}'', service_state = ()\<rparr>"

definition cache_of :: "string \<Rightarrow> unit world" where
  "cache_of txt = \<lparr>cache_file = Some txt, results_file = None, service_state = ()\<rparr>"

definition test_environ :: environ where
  "test_environ =
     map_of [(''AZURE_OPENAI_API_ENDPOINT'', ''e''), (''AZURE_OPENAI_API_MODEL'', ''m''),
             (''AZURE_OPENAI_API_KEY'', ''k''), (''AZURE_OPENAI_API_VERSION'', ''v'')]"

definition limit_of :: "int \<Rightarrow> config" where
  "limit_of L = \<lparr>STOP_AFTER_LIMIT = True, OUTPUT_LIMIT = L\<rparr>"

definition no_limit :: config where
  "no_limit = \<lparr>STOP_AFTER_LIMIT = False, OUTPUT_LIMIT = 0\<rparr>"

definition echo_service :: "unit service" where
  "echo_service s deployment prompt =
     (Return \<lparr>choices = [\<lparr>message = Some \<lparr>content = prompt\<rparr>\<rparr>], model = deployment\<rparr>, s)"

definition flaky_service :: "unit service" where
  "flaky_service s deployment prompt =
     (if prompt = ''b'' then (Raise_timeout, s) else echo_service s deployment prompt)"

definition no_message_service :: "unit service" where
  "no_message_service s deployment prompt =
     (Return \<lparr>choices = [\<lparr>message = None\<rparr>], model = deployment\<rparr>, s)"


definition sample_loads :: "string \<Rightarrow> py_value option" where
  "sample_loads line =
     (if line = ''[]\<newline>'' then Some (PyList [])
      else if line = ''{}\<newline>'' then Some (PyDict [])
      else if line = ''{\"prompt\": \"a\"}\<newline>'' then Some (PyDict [(''prompt'', PyStr ''a'')])
      else None)"

section \<open>Lines of a text file\<close>

lemma strip_nonempty_iff: "strip s \<noteq> [] \<longleftrightarrow> (\<exists>c \<in> set s. \<not> isspace c)"
proof -
  have a: "dropWhile P xs \<noteq> [] \<longleftrightarrow> (\<exists>x \<in> set xs. \<not> P x)" for P and xs :: "'a list"
    by (induction xs) auto
  have "strip s \<noteq> [] \<longleftrightarrow> (\<exists>c \<in> set (dropWhile isspace s). \<not> isspace c)"
    by (simp add: strip_def a)
  also have "\<dots> \<longleftrightarrow> dropWhile isspace s \<noteq> []"
    by (metis a dropWhile_idem)
  finally show ?thesis by (simp add: a)
qed

lemma universal_newlines_append:
  "b = [] \<or> hd b \<noteq> LF \<Longrightarrow> universal_newlines (a @ b) = universal_newlines a @ universal_newlines b"
proof (induction a rule: universal_newlines.induct)
  case 1
  then show ?case by simp
next
  case (2 c)
  then show ?case by (cases b) auto
next
  case (3 c d cs)
  then show ?case by auto
qed

lemma universal_newlines_id: "CR \<notin> set a \<Longrightarrow> universal_newlines a = a"
  by (induction a rule: universal_newlines.induct) auto

lemma split_lines_append:
  "split_lines cur (u @ v) = complete_lines cur u @ split_lines (pending_line cur u) v"
  by (induction u arbitrary: cur) auto

lemma split_lines_one: "LF \<notin> set body \<Longrightarrow> split_lines cur (body @ [LF]) = [cur @ body @ [LF]]"
  by (induction body arbitrary: cur) auto

lemma complete_lines_append:
  "complete_lines cur (u @ v) = complete_lines cur u @ complete_lines (pending_line cur u) v"
  by (induction u arbitrary: cur) auto

lemma pending_line_append:
  "pending_line cur (u @ v) = pending_line (pending_line cur u) v"
  by (induction u arbitrary: cur) auto

lemma complete_lines_one: "LF \<notin> set body \<Longrightarrow> complete_lines cur (body @ [LF]) = [cur @ body @ [LF]]"
  by (induction body arbitrary: cur) auto

lemma pending_line_one: "pending_line cur (body @ [LF]) = []"
  by (simp add: pending_line_append)

lemma split_lines_pending:
  "split_lines cur u = complete_lines cur u @ (if pending_line cur u = [] then [] else [pending_line cur u])"
  by (induction u arbitrary: cur) auto

lemma count_lines_split:
  "count_lines t = complete_count t + (if strip (pending_of t) \<noteq> [] then 1 else 0)"
proof -
  have "strip [] = []" by (simp add: strip_def)
  then show ?thesis
    by (auto simp: count_lines_def complete_count_def pending_of_def file_lines_def
        split_lines_pending)
qed

lemma LF_not_CR: "LF \<noteq> CR"
  by (simp add: LF_def CR_def)

lemma append_record_line:
  assumes "record_line body"
  shows "complete_count (t @ body @ [LF]) = complete_count t + 1"
    and "pending_of (t @ body @ [LF]) = []"
proof -
  from assms have nl: "LF \<notin> set body" and ncr: "CR \<notin> set (body @ [LF])" and ne: "strip body \<noteq> []"
    using LF_not_CR by (auto simp: record_line_def)
  from ne have "body \<noteq> []" by (auto simp: strip_def)
  with nl have "hd (body @ [LF]) \<noteq> LF" by (cases body) auto
  then have u: "universal_newlines (t @ body @ [LF]) = universal_newlines t @ body @ [LF]"
    using universal_newlines_append [of "body @ [LF]" t] universal_newlines_id [OF ncr] by simp
  from ne have "strip (p @ body @ [LF]) \<noteq> []" for p
    by (auto simp: strip_nonempty_iff)
  moreover have "complete_lines [] (universal_newlines t @ (body @ [LF])) =
      complete_lines [] (universal_newlines t)
        @ [pending_line [] (universal_newlines t) @ body @ [LF]]"
    unfolding complete_lines_append [of _ _ "body @ [LF]"]
    using complete_lines_one [OF nl] by simp
  ultimately show "complete_count (t @ body @ [LF]) = complete_count t + 1"
    unfolding complete_count_def u by simp
  have "pending_line [] (universal_newlines t @ (body @ [LF])) = []"
    unfolding pending_line_append [of _ _ "body @ [LF]"] using pending_line_one by simp
  then show "pending_of (t @ body @ [LF]) = []"
    unfolding pending_of_def u by simp
qed

lemma append_ledger_line:
  assumes "ledger_line l"
  shows "complete_count (t @ l) = complete_count t + 1" and "pending_of (t @ l) = []"
proof -
  from assms have l: "l = butlast l @ [LF]" and r: "record_line (butlast l)"
    by (auto simp: ledger_line_def) (metis append_butlast_last_id)
  show "complete_count (t @ l) = complete_count t + 1"
    using append_record_line(1) [OF r, of t] l by simp
  show "pending_of (t @ l) = []"
    using append_record_line(2) [OF r, of t] l by simp
qed

lemma append_ledger_lines:
  "\<forall>l \<in> set ls. ledger_line l \<Longrightarrow>
     complete_count (t @ concat ls) = complete_count t + int (length ls)
     \<and> (ls \<noteq> [] \<longrightarrow> pending_of (t @ concat ls) = [])"
proof (induction ls arbitrary: t)
  case Nil
  then show ?case by simp
next
  case (Cons l ls)
  then have l: "ledger_line l" and ls: "\<forall>l \<in> set ls. ledger_line l"
    by auto
  have ih: "complete_count ((t @ l) @ concat ls) = complete_count (t @ l) + int (length ls)"
    "ls \<noteq> [] \<longrightarrow> pending_of ((t @ l) @ concat ls) = []"
    using Cons.IH [OF ls, of "t @ l"] by auto
  show ?case
  proof (cases "ls = []")
    case True
    then show ?thesis using append_ledger_line [OF l, of t] by simp
  next
    case False
    then show ?thesis using ih append_ledger_line(1) [OF l, of t] by simp
  qed
qed

lemma count_lines_append_lines:
  assumes "\<forall>l \<in> set ls. ledger_line l"
  shows "count_lines (t @ concat ls) =
           (if ls = [] then count_lines t else complete_count t + int (length ls))"
proof -
  have "strip [] = []" by (simp add: strip_def)
  then show ?thesis
    using append_ledger_lines [OF assms, of t] by (simp add: count_lines_split)
qed

lemma complete_count_le: "complete_count t \<le> count_lines t"
  by (simp add: count_lines_split)

lemma complete_count_terminated: "pending_of t = [] \<Longrightarrow> complete_count t = count_lines t"
  by (simp add: count_lines_split strip_def)

lemma printable_hex_digit: "printable (hex_digit n)"
proof -
  have "hex_digit n \<in> set ''0123456789abcdef''"
    unfolding hex_digit_def by (rule nth_mem) simp
  then show ?thesis by (auto simp: printable_def)
qed

lemma printable_escape_char: "c' \<in> set (escape_char c) \<Longrightarrow> printable c'"
  using printable_hex_digit
  by (auto simp: escape_char_def Let_def dquote_def backslash_def printable_def split: if_splits)

lemma printable_encode: "c \<in> set (encode_basestring_ascii s) \<Longrightarrow> printable c"
  using printable_escape_char by (auto simp: encode_basestring_ascii_def printable_def dquote_def)

lemma printable_join:
  "\<forall>x \<in> set xs. \<forall>c \<in> set x. printable c \<Longrightarrow> \<forall>c \<in> set sep. printable c
     \<Longrightarrow> c \<in> set (join sep xs) \<Longrightarrow> printable c"
  by (induction sep xs rule: join.induct) auto

lemma printable_json_dumps: "c \<in> set (json_dumps d) \<Longrightarrow> printable c"
proof -
  have item: "\<forall>x \<in> set (map (\<lambda>(k, v). encode_basestring_ascii k @ '': '' @ encode_basestring_ascii v) d).
      \<forall>c \<in> set x. printable c"
    using printable_encode by (auto simp: printable_def)
  have sep: "\<forall>c \<in> set '', ''. printable c" by (simp add: printable_def)
  assume "c \<in> set (json_dumps d)"
  then consider "c = CHR ''{''" | "c = CHR ''}''"
    | "c \<in> set (join '', '' (map (\<lambda>(k, v). encode_basestring_ascii k @ '': '' @ encode_basestring_ascii v) d))"
    by (auto simp: json_dumps_def)
  then show ?thesis
    using printable_join [OF item sep] by cases (auto simp: printable_def)
qed

lemma record_line_json_dumps: "record_line (json_dumps d)"
proof -
  have "\<not> printable LF" "\<not> printable CR" by (simp_all add: printable_def LF_def CR_def)
  then have "LF \<notin> set (json_dumps d)" "CR \<notin> set (json_dumps d)"
    using printable_json_dumps by blast+
  moreover have "CHR ''{'' \<in> set (json_dumps d)" "\<not> isspace (CHR ''{'')"
    by (simp_all add: json_dumps_def isspace_def)
  then have "strip (json_dumps d) \<noteq> []"
    unfolding strip_nonempty_iff by blast
  ultimately show ?thesis by (simp add: record_line_def)
qed

lemma ledger_line_json_dumps: "ledger_line (json_dumps d @ [LF])"
  by (simp add: ledger_line_def record_line_json_dumps)

section \<open>The effect of one run\<close>

lemma submissions_append: "submissions (xs @ ys) = submissions xs @ submissions ys"
  by (induction xs rule: submissions.induct) auto

lemma written_text_append: "written_text (xs @ ys) = written_text xs @ written_text ys"
  by (induction xs rule: written_text.induct) auto

lemma expected_writes_append:
  "expected_writes (xs @ ys) = expected_writes xs @ expected_writes ys"
  by (induction xs rule: expected_writes.induct) auto

lemma expected_writes_Cons: "expected_writes (x # xs) = expected_writes [x] @ expected_writes xs"
  using expected_writes_append [of "[x]" xs] by simp

lemma process_item_effect:
  assumes "process_item create d pc index prompt w = (evs, w')"
  shows "submissions evs = [(pc + int index + 1, prompt, fst (create (service_state w) d prompt))]"
    and "written_text evs = expected_writes (submissions evs)"
    and "results_text w' = results_text w @ concat (written_text evs)"
    and "results_file w \<noteq> None \<longrightarrow> results_file w' \<noteq> None"
    and "cache_file w' = cache_file w"
    and "service_state w' = snd (create (service_state w) d prompt)"
  using assms
  by (auto simp: process_item_def Let_def results_text_def result_record_def output_text_def
      split: prod.splits outcome.splits list.splits option.splits)

lemma run_items_effect:
  "run_items create d pc items w = (evs, w') \<Longrightarrow>
     map (\<lambda>(i, p, r). (i, p)) (submissions evs) = map (\<lambda>(k, p). (pc + int k + 1, p)) items
     \<and> written_text evs = expected_writes (submissions evs)
     \<and> results_text w' = results_text w @ concat (written_text evs)
     \<and> (results_file w \<noteq> None \<longrightarrow> results_file w' \<noteq> None)
     \<and> cache_file w' = cache_file w"
proof (induction items arbitrary: w evs w')
  case Nil
  then show ?case by simp
next
  case (Cons item items)
  obtain index prompt where item: "item = (index, prompt)" by (cases item)
  obtain evs1 w1 where one: "process_item create d pc index prompt w = (evs1, w1)"
    by (cases "process_item create d pc index prompt w")
  obtain evs2 w2 where rest: "run_items create d pc items w1 = (evs2, w2)"
    by (cases "run_items create d pc items w1")
  from Cons.prems item one rest have evs: "evs = evs1 @ evs2" and w': "w' = w2"
    by auto
  note a = process_item_effect [OF one]
  note b = Cons.IH [OF rest]
  show ?case
    unfolding evs w' item
    using a b
      expected_writes_Cons [of "(pc + int index + 1, prompt, fst (create (service_state w) d prompt))"
        "submissions evs2"]
    by (simp add: submissions_append written_text_append)
qed

lemma record_count_nonneg: "0 \<le> record_count w"
  by (simp add: record_count_def count_lines_def)

lemma count_existing_results_eq: "count_existing_results w = (record_count w, opened w)"
  by (cases "results_file w")
    (simp_all add: count_existing_results_def record_count_def results_text_def count_lines_def
      file_lines_def opened_def)

lemma opened_simps [simp]:
  "results_text (opened w) = results_text w"
  "results_file (opened w) = Some (results_text w)"
  "cache_file (opened w) = cache_file w"
  "service_state (opened w) = service_state w"
  "opened (opened w) = opened w"
  "(opened w)\<lparr>results_file := Some (results_text w)\<rparr> = opened w"
  by (simp_all add: opened_def results_text_def)

lemma py_slice_working:
  assumes "0 \<le> pc" "pc < int (length xs)" "0 < cap"
  shows "py_slice xs pc (pc + cap) = take (nat (min cap (int (length xs) - pc))) (drop (nat pc) xs)"
proof -
  have "nat (min (pc + cap) (int (length xs))) - nat pc = nat (min cap (int (length xs) - pc))"
    using assms by linarith
  then show ?thesis
    using assms by (simp add: py_slice_def slice_index_def Let_def)
qed

lemma process_prompts_noop:
  assumes "remaining cfg (record_count w0) (int (length prompts)) \<le> 0"
  shows "process_prompts cfg env create prompts w0 =
    (None,
     [if STOP_AFTER_LIMIT cfg \<and> OUTPUT_LIMIT cfg \<le> record_count w0
      then Print_limit_already_reached (OUTPUT_LIMIT cfg) else Print_all_processed],
     opened w0)"
  using assms
  by (auto simp: process_prompts_def count_existing_results_eq remaining_def Let_def
      split: if_splits)

lemma create_client_configured:
  "configured env \<Longrightarrow> \<exists>c. create_client env = Inr c"
  "\<not> configured env \<Longrightarrow> create_client env = Inl KeyError"
  by (auto simp: configured_def create_client_def environ_get_def split: option.splits)

lemma process_prompts_unconfigured:
  assumes "0 < remaining cfg (record_count w0) (int (length prompts))" "\<not> configured env"
  shows "process_prompts cfg env create prompts w0 = (Some KeyError, [], opened w0)"
  using assms create_client_configured(2) [OF assms(2)]
  by (auto simp: process_prompts_def count_existing_results_eq remaining_def Let_def
      split: if_splits)

lemma process_prompts_run:
  assumes "0 < remaining cfg (record_count w0) (int (length prompts))" "configured env"
    and "env ''AZURE_OPENAI_API_MODEL'' = Some d"
    and "run_items create d (record_count w0)
           (enumerate_list (working_slice cfg prompts (record_count w0))) (opened w0) = (evs, w')"
  shows "process_prompts cfg env create prompts w0 =
    (None,
     [Log_starting (int (length (working_slice cfg prompts (record_count w0)))) (record_count w0),
      Progress_bar (record_count w0 + remaining cfg (record_count w0) (int (length prompts)))
        (record_count w0)]
     @ evs
     @ (if STOP_AFTER_LIMIT cfg
           \<and> OUTPUT_LIMIT cfg
               \<le> record_count w0 + int (length (working_slice cfg prompts (record_count w0)))
        then [Print_limit_reached (OUTPUT_LIMIT cfg)] else [])
     @ [Client_close],
     w')"
proof -
  let ?pc = "record_count w0" and ?n = "int (length prompts)"
  obtain c where c: "create_client env = Inr c"
    using create_client_configured(1) [OF assms(2)] by blast
  have pc: "0 \<le> ?pc" by (rule record_count_nonneg)
  show ?thesis
  proof (cases "STOP_AFTER_LIMIT cfg")
    case True
    with assms(1) have lt: "?pc < OUTPUT_LIMIT cfg" "?pc < ?n"
      by (auto simp: remaining_def)
    then have sl: "py_slice prompts ?pc (?pc + (OUTPUT_LIMIT cfg - ?pc)) = working_slice cfg prompts ?pc"
      using py_slice_working [of ?pc prompts "OUTPUT_LIMIT cfg - ?pc"] pc True
      by (simp add: working_slice_def remaining_def)
    show ?thesis
      using True lt c assms(3,4) sl
      by (simp add: process_prompts_def count_existing_results_eq Let_def environ_get_def
          remaining_def)
  next
    case False
    with assms(1) have lt: "?pc < ?n"
      by (auto simp: remaining_def)
    then have sl: "py_slice prompts ?pc (?pc + (?n - ?pc)) = working_slice cfg prompts ?pc"
      using py_slice_working [of ?pc prompts "?n - ?pc"] pc False
      by (simp add: working_slice_def remaining_def)
    show ?thesis
      using False lt c assms(3,4) sl
      by (simp add: process_prompts_def count_existing_results_eq Let_def environ_get_def
          remaining_def)
  qed
qed

section \<open>Counting the ledger\<close>

lemma split_lines_no_LF:
  "LF \<notin> set rest \<Longrightarrow> split_lines cur rest = (if cur @ rest = [] then [] else [cur @ rest])"
  by (induction rest arbitrary: cur) auto

lemma split_lines_terminated:
  assumes "\<forall>l \<in> set ls. LF \<notin> set l" "LF \<notin> set rest"
  shows "split_lines [] (concat (map (\<lambda>l. l @ [LF]) ls) @ rest) =
           map (\<lambda>l. l @ [LF]) ls @ (if rest = [] then [] else [rest])"
  using assms
proof (induction ls)
  case Nil
  then show ?case by (simp add: split_lines_no_LF)
next
  case (Cons l ls)
  then have l: "LF \<notin> set l" by simp
  have "split_lines [] ((l @ [LF]) @ (concat (map (\<lambda>l. l @ [LF]) ls) @ rest)) =
      [l @ [LF]] @ split_lines [] (concat (map (\<lambda>l. l @ [LF]) ls) @ rest)"
    unfolding split_lines_append [of _ "l @ [LF]"]
    using complete_lines_one [OF l, of "[]"] pending_line_one [of "[]" l] by simp
  with Cons show ?case by simp
qed

lemma strip_line_LF: "strip (l @ [LF]) \<noteq> [] \<longleftrightarrow> (\<exists>c \<in> set l. \<not> isspace c)"
  by (auto simp: strip_nonempty_iff isspace_def LF_def)

lemma count_lines_terminated:
  assumes "\<forall>l \<in> set ls. LF \<notin> set l \<and> CR \<notin> set l" "LF \<notin> set rest \<and> CR \<notin> set rest"
  shows "count_lines (concat (map (\<lambda>l. l @ [LF]) ls) @ rest) =
           int (length (filter (\<lambda>l. \<exists>c \<in> set l. \<not> isspace c) (ls @ [rest])))"
proof -
  have "CR \<notin> set (concat (map (\<lambda>l. l @ [LF]) ls) @ rest)"
    using assms LF_not_CR by auto
  then have u: "universal_newlines (concat (map (\<lambda>l. l @ [LF]) ls) @ rest) =
      concat (map (\<lambda>l. l @ [LF]) ls) @ rest"
    by (rule universal_newlines_id)
  have f: "filter (\<lambda>line. strip line \<noteq> []) (map (\<lambda>l. l @ [LF]) ls) =
      map (\<lambda>l. l @ [LF]) (filter (\<lambda>l. \<exists>c \<in> set l. \<not> isspace c) ls)"
    by (induction ls) (simp_all add: strip_line_LF)
  show ?thesis
    unfolding count_lines_def file_lines_def u
    using split_lines_terminated [of ls rest] assms f
    by (auto simp: strip_nonempty_iff)
qed

text \<open>
  C8. \<open>count_existing_results\<close> returns the number of records stored: when the ledger file
  does not exist it creates it empty and returns 0; otherwise it returns the number of lines
  of the file that are not blank and leaves the file as it is. For a text made of lines
  ended by LF, with or without an unfinished last line, that is the number of the lines that
  hold a character other than white space: a blank line is passed over, it is no error.
\<close>

theorem count_existing_results_counts:
  "(results_file w = None \<longrightarrow>
      count_existing_results w = (0, w\<lparr>results_file := Some []\<rparr>))
   \<and> (results_file w = Some txt \<longrightarrow>
        count_existing_results w =
          (int (length (filter (\<lambda>line. strip line \<noteq> []) (file_lines txt))), w))
   \<and> (results_file w = Some (concat (map (\<lambda>l. l @ [LF]) ls) @ rest)
        \<and> (\<forall>l \<in> set ls. LF \<notin> set l \<and> CR \<notin> set l) \<and> LF \<notin> set rest \<and> CR \<notin> set rest \<longrightarrow>
        fst (count_existing_results w) =
          int (length (filter (\<lambda>l. \<exists>c \<in> set l. \<not> isspace c) (ls @ [rest]))))"
  using count_lines_terminated [of ls rest]
  by (auto simp: count_existing_results_def count_lines_def)

theorem count_existing_results_counts_witness:
  "count_existing_results no_ledger = (0, no_ledger\<lparr>results_file := Some []\<rparr>)
   \<and> count_existing_results ledger_with_blank_lines = (2, ledger_with_blank_lines)"
proof -
  have a: "results_file no_ledger = None" by (simp add: no_ledger_def)
  have b: "results_file ledger_with_blank_lines = Some ''{a}\<newline>\<newline>  \<newline>{b}''"
    by (simp add: ledger_with_blank_lines_def)
  have c: "int (length (filter (\<lambda>line. strip line \<noteq> []) (file_lines ''{a}\<newline>\<newline>  \<newline>{b}''))) = 2"
    by (simp add: file_lines_def strip_def isspace_def LF_def CR_def)
  show ?thesis
    using count_existing_results_counts [of no_ledger "[]" "[]" "[]"]
      count_existing_results_counts [of ledger_with_blank_lines "''{a}\<newline>\<newline>  \<newline>{b}''" "[]" "[]"]
      a b c by simp
qed

section \<open>The output limit\<close>

lemma expected_writes_ledger_line: "l \<in> set (expected_writes subs) \<Longrightarrow> ledger_line l"
  by (induction subs rule: expected_writes.induct)
    (auto simp: ledger_line_json_dumps split: if_splits)

lemma expected_writes_length: "length (expected_writes subs) \<le> length subs"
  by (induction subs rule: expected_writes.induct) auto

lemma enumerate_slice:
  assumes "a + m \<le> length xs"
  shows "map (\<lambda>(k, p). (pc + int k + 1, p)) (enumerate_list (take m (drop a xs))) =
           map (\<lambda>j. (pc + int (j - a) + 1, xs ! j)) [a ..< a + m]"
  using assms by (auto simp: enumerate_list_def list_eq_iff_nth_eq min_def)

lemma remaining_le:
  "remaining cfg pc n \<le> n - pc"
  "STOP_AFTER_LIMIT cfg \<Longrightarrow> remaining cfg pc n \<le> OUTPUT_LIMIT cfg - pc"
  by (auto simp: remaining_def)

lemma working_slice_length:
  assumes "0 \<le> pc"
  shows "int (length (working_slice cfg prompts pc)) = max 0 (remaining cfg pc (int (length prompts)))"
  using assms remaining_le(1) [of cfg pc "int (length prompts)"]
  by (auto simp: working_slice_def min_def max_def)

lemma working_slice_submissions:
  assumes "0 \<le> pc"
  shows "map (\<lambda>(k, p). (pc + int k + 1, p)) (enumerate_list (working_slice cfg prompts pc)) =
           map (\<lambda>j. (int j + 1, prompts ! j))
             [nat pc ..< nat (pc + remaining cfg pc (int (length prompts)))]"
proof (cases "0 < remaining cfg pc (int (length prompts))")
  case True
  let ?m = "nat (remaining cfg pc (int (length prompts)))"
  have le: "nat pc + ?m \<le> length prompts"
    using assms True remaining_le(1) [of cfg pc "int (length prompts)"] by linarith
  have up: "nat (pc + remaining cfg pc (int (length prompts))) = nat pc + ?m"
    using assms True by linarith
  have "map (\<lambda>j. (pc + int (j - nat pc) + 1, prompts ! j)) [nat pc ..< nat pc + ?m] =
      map (\<lambda>j. (int j + 1, prompts ! j)) [nat pc ..< nat pc + ?m]"
    using assms by (intro map_cong) auto
  then show ?thesis
    unfolding working_slice_def up using enumerate_slice [OF le, of pc] by simp
next
  case False
  then have "nat (pc + remaining cfg pc (int (length prompts))) \<le> nat pc" by linarith
  with False show ?thesis
    by (simp add: working_slice_def enumerate_list_def)
qed

text \<open>Every run, whatever its outcome, in terms of what it requested and wrote.\<close>

lemma process_prompts_summary:
  assumes "process_prompts cfg env create prompts w0 = (err, evs, w')"
  shows "written_text evs = expected_writes (submissions evs)"
    and "results_text w' = results_text w0 @ concat (written_text evs)"
    and "results_file w' \<noteq> None"
    and "cache_file w' = cache_file w0"
    and "map (\<lambda>(i, p, r). (i, p)) (submissions evs) =
          (if configured env
           then map (\<lambda>j. (int j + 1, prompts ! j))
                  [nat (record_count w0) ..<
                   nat (record_count w0 + remaining cfg (record_count w0) (int (length prompts)))]
           else [])"
proof -
  let ?pc = "record_count w0" and ?n = "int (length prompts)"
  have pc: "0 \<le> ?pc" by (rule record_count_nonneg)
  consider (noop) "remaining cfg ?pc ?n \<le> 0"
    | (unconf) "0 < remaining cfg ?pc ?n" "\<not> configured env"
    | (run) "0 < remaining cfg ?pc ?n" "configured env"
    by linarith
  then have "written_text evs = expected_writes (submissions evs)
    \<and> results_text w' = results_text w0 @ concat (written_text evs)
    \<and> results_file w' \<noteq> None
    \<and> cache_file w' = cache_file w0
    \<and> map (\<lambda>(i, p, r). (i, p)) (submissions evs) =
          (if configured env
           then map (\<lambda>j. (int j + 1, prompts ! j))
                  [nat ?pc ..< nat (?pc + remaining cfg ?pc ?n)]
           else [])"
  proof cases
    case noop
    then have "nat (?pc + remaining cfg ?pc ?n) \<le> nat ?pc" by linarith
    with assms process_prompts_noop [OF noop, of env create] show ?thesis
      by auto
  next
    case unconf
    with assms process_prompts_unconfigured [OF unconf, of create] show ?thesis
      by auto
  next
    case run
    from run(2) obtain d where d: "env ''AZURE_OPENAI_API_MODEL'' = Some d"
      by (auto simp: configured_def)
    obtain evs1 w1 where r: "run_items create d ?pc
        (enumerate_list (working_slice cfg prompts ?pc)) (opened w0) = (evs1, w1)"
      by (cases "run_items create d ?pc (enumerate_list (working_slice cfg prompts ?pc)) (opened w0)")
    note e = run_items_effect [OF r]
    from assms process_prompts_run [OF run d r]
    have err: "err = None" and w1: "w' = w1"
      and evs: "submissions evs = submissions evs1" "written_text evs = written_text evs1"
      by (auto simp: submissions_append written_text_append)
    show ?thesis
      unfolding evs w1 using e run(2) working_slice_submissions [OF pc, of cfg prompts]
      by simp
  qed
  then show "written_text evs = expected_writes (submissions evs)"
    and "results_text w' = results_text w0 @ concat (written_text evs)"
    and "results_file w' \<noteq> None"
    and "cache_file w' = cache_file w0"
    and "map (\<lambda>(i, p, r). (i, p)) (submissions evs) =
          (if configured env
           then map (\<lambda>j. (int j + 1, prompts ! j))
                  [nat ?pc ..< nat (?pc + remaining cfg ?pc ?n)]
           else [])"
    by simp_all
qed

lemma submissions_count_le:
  assumes "process_prompts cfg env create prompts w0 = (err, evs, w')"
  shows "int (length (submissions evs))
           \<le> max 0 (remaining cfg (record_count w0) (int (length prompts)))"
proof -
  have "length (submissions evs) = length (map (\<lambda>(i, p, r). (i, p)) (submissions evs))"
    by simp
  also have "int \<dots> \<le> max 0 (remaining cfg (record_count w0) (int (length prompts)))"
    unfolding process_prompts_summary(5) [OF assms]
    using record_count_nonneg [of w0] by auto
  finally show ?thesis .
qed

lemma record_count_after_run:
  assumes "process_prompts cfg env create prompts w0 = (err, evs, w')"
  shows "record_count w' =
           (if written_text evs = [] then record_count w0
            else complete_count (results_text w0) + int (length (written_text evs)))"
proof -
  have "\<forall>l \<in> set (written_text evs). ledger_line l"
    unfolding process_prompts_summary(1) [OF assms] using expected_writes_ledger_line by blast
  then show ?thesis
    unfolding record_count_def process_prompts_summary(2) [OF assms]
    by (rule count_lines_append_lines)
qed

lemma record_count_bound:
  assumes "process_prompts cfg env create prompts w0 = (err, evs, w')"
  shows "record_count w0 \<le> record_count w' + (if strip (pending_of (results_text w0)) \<noteq> [] \<and> written_text evs \<noteq> [] then 1 else 0)"
    and "record_count w'
           \<le> record_count w0 + max 0 (remaining cfg (record_count w0) (int (length prompts)))"
proof -
  have len: "int (length (written_text evs))
      \<le> max 0 (remaining cfg (record_count w0) (int (length prompts)))"
    using submissions_count_le [OF assms] expected_writes_length [of "submissions evs"]
    unfolding process_prompts_summary(1) [OF assms] by linarith
  show "record_count w'
           \<le> record_count w0 + max 0 (remaining cfg (record_count w0) (int (length prompts)))"
    using len complete_count_le [of "results_text w0"]
    unfolding record_count_after_run [OF assms] by (auto simp: record_count_def)
  show "record_count w0 \<le> record_count w' + (if strip (pending_of (results_text w0)) \<noteq> [] \<and> written_text evs \<noteq> [] then 1 else 0)"
    unfolding record_count_after_run [OF assms]
    using count_lines_split [of "results_text w0"] by (auto simp: record_count_def)
qed

lemma run_sequence_bound:
  "STOP_AFTER_LIMIT cfg \<Longrightarrow>
     record_count (run_sequence cfg create runs w) \<le> max (OUTPUT_LIMIT cfg) (record_count w)"
proof (induction runs arbitrary: w)
  case Nil
  then show ?case by simp
next
  case (Cons run runs)
  obtain env prompts where run: "run = (env, prompts)" by (cases run)
  obtain err evs w' where p: "process_prompts cfg env create prompts w = (err, evs, w')"
    by (cases "process_prompts cfg env create prompts w")
  have "record_count w' \<le> max (OUTPUT_LIMIT cfg) (record_count w)"
    using record_count_bound(2) [OF p] remaining_le(2) [OF Cons.prems, of "record_count w" "int (length prompts)"]
    by (auto simp: max_def split: if_splits)
  moreover have "record_count (run_sequence cfg create runs w') \<le> max (OUTPUT_LIMIT cfg) (record_count w')"
    using Cons.IH [OF Cons.prems] .
  ultimately show ?case
    unfolding run using p by simp
qed

text \<open>
  C1, as amended. With the limit enabled and \<open>OUTPUT_LIMIT = L\<close>, no sequence of runs, from
  any starting ledger, with any prompts, environment and service, leaves more records in the
  ledger than the larger of \<open>L\<close> and the number of records the ledger held at the start; so a
  ledger that starts with at most \<open>L\<close> records never exceeds \<open>L\<close>. The count is the one
  \<open>count_existing_results\<close> returns.
\<close>

theorem limit_invariant:
  "STOP_AFTER_LIMIT cfg \<Longrightarrow>
     fst (count_existing_results (run_sequence cfg create runs w))
       \<le> max (OUTPUT_LIMIT cfg) (fst (count_existing_results w))
     \<and> (fst (count_existing_results w) \<le> OUTPUT_LIMIT cfg \<longrightarrow>
          fst (count_existing_results (run_sequence cfg create runs w)) \<le> OUTPUT_LIMIT cfg)"
  using run_sequence_bound [of cfg create runs w]
  by (auto simp: count_existing_results_eq)

theorem limit_invariant_witness:
  "STOP_AFTER_LIMIT (limit_of 3)
   \<and> fst (count_existing_results no_ledger) \<le> OUTPUT_LIMIT (limit_of 3)
   \<and> fst (count_existing_results
       (run_sequence (limit_of 3) echo_service
          [(test_environ, [''a'', ''b'', ''c'', ''d'', ''e'']),
           (test_environ, [''a'', ''b'', ''c'', ''d'', ''e''])] no_ledger)) \<le> 3"
proof -
  have a: "STOP_AFTER_LIMIT (limit_of 3)" by (simp add: limit_of_def)
  have b: "fst (count_existing_results no_ledger) \<le> OUTPUT_LIMIT (limit_of 3)"
    by (simp add: count_existing_results_def no_ledger_def limit_of_def)
  show ?thesis
    using a b limit_invariant [OF a, of echo_service
        "[(test_environ, [''a'', ''b'', ''c'', ''d'', ''e'']),
          (test_environ, [''a'', ''b'', ''c'', ''d'', ''e''])]" no_ledger]
    by (simp add: limit_of_def)
qed

text \<open>
  C1 as stated fails for a ledger that already holds more than \<open>L\<close> records: with two
  records and \<open>L = 1\<close> the run returns at once and the two records stay.
\<close>

theorem limit_invariant_counterexample:
  "STOP_AFTER_LIMIT (limit_of 1)
   \<and> \<not> fst (count_existing_results
         (snd (snd (process_prompts (limit_of 1) test_environ echo_service [''a''] two_records))))
       \<le> OUTPUT_LIMIT (limit_of 1)"
  by (simp add: limit_of_def process_prompts_def count_existing_results_def two_records_def
      count_lines_def file_lines_def strip_def isspace_def LF_def CR_def)

section \<open>Resumption and the working slice\<close>

text \<open>
  C2. Whatever a run submits comes from the part of the prompt sequence that begins at the
  record count the ledger had when the run started: a request made with absolute index \<open>i\<close>
  (counted from 1) carries the prompt at source index \<open>i - 1\<close>, and \<open>i - 1\<close> is never below that
  count. No prompt at a smaller index is submitted.
\<close>

theorem no_resubmission:
  "(i, p, r) \<in> set (submissions (fst (snd (process_prompts cfg env create prompts w0)))) \<Longrightarrow>
     fst (count_existing_results w0) \<le> i - 1 \<and> i - 1 < int (length prompts)
     \<and> prompts ! nat (i - 1) = p"
proof -
  assume m: "(i, p, r) \<in> set (submissions (fst (snd (process_prompts cfg env create prompts w0))))"
  obtain err evs w' where run: "process_prompts cfg env create prompts w0 = (err, evs, w')"
    by (cases "process_prompts cfg env create prompts w0")
  let ?pc = "record_count w0" and ?n = "int (length prompts)"
  from m run have "(i, p) \<in> set (map (\<lambda>(i, p, r). (i, p)) (submissions evs))"
    by force
  then obtain j where j: "nat ?pc \<le> j" "j < nat (?pc + remaining cfg ?pc ?n)"
    and i: "i = int j + 1" and p: "p = prompts ! j"
    unfolding process_prompts_summary(5) [OF run] by (auto split: if_splits)
  from j remaining_le(1) [of cfg ?pc ?n] have "int j < ?n" by linarith
  with j i p show ?thesis
    by (simp add: count_existing_results_eq)
qed

theorem no_resubmission_witness:
  "(3, ''c'', fst (echo_service () ''m'' ''c''))
     \<in> set (submissions (fst (snd (process_prompts (limit_of 3) test_environ echo_service
              [''a'', ''b'', ''c'', ''d''] two_records))))
   \<and> fst (count_existing_results two_records) = 2
   \<and> [''a'', ''b'', ''c'', ''d''] ! nat (3 - 1) = ''c''"
proof -
  have m: "(3, ''c'', fst (echo_service () ''m'' ''c''))
     \<in> set (submissions (fst (snd (process_prompts (limit_of 3) test_environ echo_service
              [''a'', ''b'', ''c'', ''d''] two_records))))"
    by code_simp
  have c: "fst (count_existing_results two_records) = 2"
    by code_simp
  show ?thesis
    using m c no_resubmission [OF m] by simp
qed



section \<open>Skipped items\<close>

lemma expected_writes_filter:
  "expected_writes subs = map record_text (filter (\<lambda>s. \<not> skipped s) subs)"
  by (induction subs rule: expected_writes.induct)
    (auto simp: record_text_def skipped_def completed_def)

lemma process_item_skipped:
  assumes "\<not> completed (fst (create (service_state w) d prompt))"
  shows "results_file (snd (process_item create d pc index prompt w)) = results_file w"
    and "written_text (fst (process_item create d pc index prompt w)) = []"
    and "length (submissions (fst (process_item create d pc index prompt w))) = 1"
  using assms
  by (auto simp: process_item_def Let_def completed_def
      split: prod.splits outcome.splits list.splits)

text \<open>
  C5. An item whose request times out, fails or returns no choice is requested once, gets
  no record, and leaves the ledger file as it was; the loop goes on with the rest of the
  slice. Over a whole run the ledger gains exactly the records of the requests that were
  answered with at least one choice, in the order of the requests, and no absolute index
  is requested twice. With one time-out among four prompts that makes three records, those
  of the other three prompts in their order (the witness below runs it).
\<close>

theorem skipped_items_leave_no_record:
  "(\<not> completed (fst (create (service_state w) d prompt)) \<longrightarrow>
      results_file (snd (process_item create d pc index prompt w)) = results_file w
      \<and> written_text (fst (process_item create d pc index prompt w)) = []
      \<and> length (submissions (fst (process_item create d pc index prompt w))) = 1
      \<and> run_items create d pc ((index, prompt) # rest) w =
          (fst (process_item create d pc index prompt w)
             @ fst (run_items create d pc rest (snd (process_item create d pc index prompt w))),
           snd (run_items create d pc rest (snd (process_item create d pc index prompt w)))))
   \<and> (process_prompts cfg env create prompts w0 = (err, evs, w') \<longrightarrow>
        results_text w' =
          results_text w0 @ concat (map record_text (filter (\<lambda>s. \<not> skipped s) (submissions evs)))
        \<and> distinct (map fst (submissions evs))
        \<and> (results_text w0 = [] \<and> length (submissions evs) = 4
             \<and> length (filter skipped (submissions evs)) = 1 \<longrightarrow>
           length (filter (\<lambda>s. \<not> skipped s) (submissions evs)) = 3
           \<and> fst (count_existing_results w') = 3))"
proof -
  have three: "length (filter (\<lambda>s. \<not> skipped s) (submissions evs)) = 3
      \<and> fst (count_existing_results w') = 3"
    if run: "process_prompts cfg env create prompts w0 = (err, evs, w')"
      and e: "results_text w0 = []" and four: "length (submissions evs) = 4"
      and one: "length (filter skipped (submissions evs)) = 1"
  proof -
    have n: "length (filter (\<lambda>s. \<not> skipped s) (submissions evs)) = 3"
      using sum_length_filter_compl [of skipped "submissions evs"] four one by simp
    then have w: "length (written_text evs) = 3"
      unfolding process_prompts_summary(1) [OF run] expected_writes_filter by simp
    then have "written_text evs \<noteq> []" by auto
    then have "record_count w' = 3"
      unfolding record_count_after_run [OF run] e using w
      by (simp add: complete_count_def)
    with n show ?thesis
      by (simp add: count_existing_results_eq)
  qed
  have "distinct (map fst (submissions evs))"
    if run: "process_prompts cfg env create prompts w0 = (err, evs, w')"
  proof -
    have "map fst (submissions evs) = map fst (map (\<lambda>(i, p, r). (i, p)) (submissions evs))"
      by (simp add: case_prod_beta)
    also have "distinct \<dots>"
      unfolding process_prompts_summary(5) [OF run]
      by (auto simp: distinct_map inj_on_def comp_def)
    finally show ?thesis .
  qed
  then show ?thesis
    using process_item_skipped [of create w d prompt pc index] three
      process_prompts_summary(1,2) [of cfg env create prompts w0 err evs w']
    by (auto simp: expected_writes_filter split: prod.splits)
qed

theorem skipped_items_leave_no_record_witness:
  "\<not> completed (fst (flaky_service (service_state no_ledger) ''m'' ''b''))
   \<and> results_file (snd (process_item flaky_service ''m'' 0 1 ''b'' no_ledger))
       = results_file no_ledger
   \<and> results_text (snd (snd (process_prompts no_limit test_environ flaky_service
        [''a'', ''b'', ''c'', ''d''] no_ledger))) =
       json_dumps [(''prompt'', ''a''), (''model'', ''m''), (''output'', ''a'')] @ [LF]
       @ json_dumps [(''prompt'', ''c''), (''model'', ''m''), (''output'', ''c'')] @ [LF]
       @ json_dumps [(''prompt'', ''d''), (''model'', ''m''), (''output'', ''d'')] @ [LF]
   \<and> fst (count_existing_results (snd (snd (process_prompts no_limit test_environ flaky_service
        [''a'', ''b'', ''c'', ''d''] no_ledger)))) = 3"
proof -
  have a: "\<not> completed (fst (flaky_service (service_state no_ledger) ''m'' ''b''))"
    by (simp add: flaky_service_def completed_def)
  obtain err evs w' where run: "process_prompts no_limit test_environ flaky_service
        [''a'', ''b'', ''c'', ''d''] no_ledger = (err, evs, w')"
    by (cases "process_prompts no_limit test_environ flaky_service
        [''a'', ''b'', ''c'', ''d''] no_ledger")
  have subs: "submissions (fst (snd (process_prompts no_limit test_environ flaky_service
        [''a'', ''b'', ''c'', ''d''] no_ledger))) =
      [(1, ''a'', fst (echo_service () ''m'' ''a'')), (2, ''b'', Raise_timeout),
       (3, ''c'', fst (echo_service () ''m'' ''c'')), (4, ''d'', fst (echo_service () ''m'' ''d''))]"
    by code_simp
  have t: "results_text no_ledger = []"
    by (simp add: results_text_def no_ledger_def)
  have c: "fst (count_existing_results (snd (snd (process_prompts no_limit test_environ
        flaky_service [''a'', ''b'', ''c'', ''d''] no_ledger)))) = 3"
    by code_simp
  from skipped_items_leave_no_record
    [of flaky_service no_ledger "''m''" "''b''" 0 1 "[]" no_limit test_environ
        "[''a'', ''b'', ''c'', ''d'']" no_ledger err evs w'] a run subs t c
  show ?thesis
    by (simp add: skipped_def completed_def record_text_def result_record_def output_text_def
        echo_service_def)
qed

section \<open>The report of the limit\<close>









section \<open>A second run\<close>

lemma universal_newlines_ends_LF:
  "universal_newlines (t @ [LF]) \<noteq> [] \<and> last (universal_newlines (t @ [LF])) = LF"
  by (induction t rule: universal_newlines.induct) (auto simp: LF_not_CR)

lemma pending_of_terminated:
  assumes "t = [] \<or> last t = LF"
  shows "pending_of t = []"
proof (cases "t = []")
  case True
  then show ?thesis by (simp add: pending_of_def)
next
  case False
  with assms have "t = butlast t @ [LF]"
    by (metis append_butlast_last_id)
  then obtain u where u: "universal_newlines t = u @ [LF]"
    using universal_newlines_ends_LF [of "butlast t"]
    by (metis append_butlast_last_id)
  show ?thesis
    unfolding pending_of_def u by (rule pending_line_one)
qed

lemma remaining_after_full_run:
  assumes "0 < remaining cfg pc n"
  shows "remaining cfg (pc + remaining cfg pc n) n \<le> 0"
  using assms by (auto simp: remaining_def min_def split: if_splits)

lemma second_run_noop:
  assumes "remaining cfg (record_count w1) (int (length prompts)) \<le> 0"
    and "results_file w1 \<noteq> None"
    and "process_prompts cfg env create prompts w1 = (err2, evs2, w2)"
  shows "submissions evs2 = [] \<and> written_text evs2 = [] \<and> results_file w2 = results_file w1"
  using assms process_prompts_noop [OF assms(1), of env create]
  by (auto simp: results_text_def)

text \<open>
  C4, as amended. Run the batch twice in succession, with the same prompts, configuration
  and environment. If the ledger file was empty, missing or ended in a newline before the
  first run, and no request of the first run was skipped (each was answered with at least
  one choice), then the second run submits nothing and writes nothing, and the ledger file
  holds after it what it held after the first run.
\<close>

theorem idempotent_resume:
  "process_prompts cfg env create prompts w0 = (err1, evs1, w1) \<Longrightarrow>
   process_prompts cfg env create prompts w1 = (err2, evs2, w2) \<Longrightarrow>
   results_text w0 = [] \<or> last (results_text w0) = LF \<Longrightarrow>
   filter skipped (submissions evs1) = [] \<Longrightarrow>
     submissions evs2 = [] \<and> written_text evs2 = [] \<and> results_file w2 = results_file w1"
proof -
  assume run1: "process_prompts cfg env create prompts w0 = (err1, evs1, w1)"
    and run2: "process_prompts cfg env create prompts w1 = (err2, evs2, w2)"
    and t: "results_text w0 = [] \<or> last (results_text w0) = LF"
    and ok: "filter skipped (submissions evs1) = []"
  let ?pc = "record_count w0" and ?n = "int (length prompts)"
  have pc: "0 \<le> ?pc" by (rule record_count_nonneg)
  have f1: "results_file w1 \<noteq> None" by (rule process_prompts_summary(3) [OF run1])
  consider (noop) "remaining cfg ?pc ?n \<le> 0"
    | (unconf) "0 < remaining cfg ?pc ?n" "\<not> configured env"
    | (run) "0 < remaining cfg ?pc ?n" "configured env"
    by linarith
  then show ?thesis
  proof cases
    case noop
    from run1 process_prompts_noop [OF noop, of env create] have "w1 = opened w0" by simp
    then have "remaining cfg (record_count w1) ?n \<le> 0"
      using noop by (simp add: record_count_def)
    then show ?thesis by (rule second_run_noop [OF _ f1 run2])
  next
    case unconf
    from run1 process_prompts_unconfigured [OF unconf, of create] have w1: "w1 = opened w0" by simp
    then have "0 < remaining cfg (record_count w1) ?n"
      using unconf(1) by (simp add: record_count_def)
    from run2 process_prompts_unconfigured [OF this unconf(2), of create] show ?thesis
      unfolding w1 by simp
  next
    case run
    have "length (submissions evs1) = length (map (\<lambda>(i, p, r). (i, p)) (submissions evs1))"
      by simp
    also have "\<dots> = nat (remaining cfg ?pc ?n)"
      unfolding process_prompts_summary(5) [OF run1] using run pc by simp
    finally have n: "length (submissions evs1) = nat (remaining cfg ?pc ?n)" .
    have "filter (\<lambda>s. \<not> skipped s) (submissions evs1) = submissions evs1"
      using ok by (simp add: filter_empty_conv)
    then have w: "length (written_text evs1) = nat (remaining cfg ?pc ?n)"
      unfolding process_prompts_summary(1) [OF run1] expected_writes_filter using n by simp
    with run(1) have ne: "written_text evs1 \<noteq> []" by auto
    have "record_count w1 = ?pc + remaining cfg ?pc ?n"
      unfolding record_count_after_run [OF run1]
      using ne w run(1) complete_count_terminated [OF pending_of_terminated [OF t]]
      by (simp add: record_count_def)
    then have "remaining cfg (record_count w1) ?n \<le> 0"
      using remaining_after_full_run [OF run(1)] by simp
    then show ?thesis by (rule second_run_noop [OF _ f1 run2])
  qed
qed

theorem idempotent_resume_witness:
  "(results_text no_ledger = [] \<or> last (results_text no_ledger) = LF)
   \<and> filter skipped (submissions (fst (snd (process_prompts (limit_of 3) test_environ
        echo_service [''a'', ''b'', ''c'', ''d'', ''e''] no_ledger)))) = []
   \<and> results_file (run_sequence (limit_of 3) echo_service
        [(test_environ, [''a'', ''b'', ''c'', ''d'', ''e'']),
         (test_environ, [''a'', ''b'', ''c'', ''d'', ''e''])] no_ledger)
     = results_file (run_sequence (limit_of 3) echo_service
        [(test_environ, [''a'', ''b'', ''c'', ''d'', ''e''])] no_ledger)"
proof -
  obtain err1 evs1 w1 where run1: "process_prompts (limit_of 3) test_environ echo_service
      [''a'', ''b'', ''c'', ''d'', ''e''] no_ledger = (err1, evs1, w1)"
    by (cases "process_prompts (limit_of 3) test_environ echo_service
      [''a'', ''b'', ''c'', ''d'', ''e''] no_ledger")
  obtain err2 evs2 w2 where run2: "process_prompts (limit_of 3) test_environ echo_service
      [''a'', ''b'', ''c'', ''d'', ''e''] w1 = (err2, evs2, w2)"
    by (cases "process_prompts (limit_of 3) test_environ echo_service
      [''a'', ''b'', ''c'', ''d'', ''e''] w1")
  have t: "results_text no_ledger = [] \<or> last (results_text no_ledger) = LF"
    by (simp add: results_text_def no_ledger_def)
  have f: "filter skipped (submissions (fst (snd (process_prompts (limit_of 3) test_environ
        echo_service [''a'', ''b'', ''c'', ''d'', ''e''] no_ledger)))) = []"
    by code_simp
  then have f': "filter skipped (submissions evs1) = []"
    using run1 by simp
  from idempotent_resume [OF run1 run2 t f'] run1 run2 t f show ?thesis
    by simp
qed

text \<open>
  C4 as stated fails for a service that answers the same way every time but does not
  answer every prompt: the prompts are b and a, the request for b times out. The first run
  records a; the second run starts at index 1 and records a again.
\<close>

theorem idempotent_resume_counterexample:
  "results_text (run_sequence no_limit flaky_service [(test_environ, [''b'', ''a''])] no_ledger)
     = json_dumps [(''prompt'', ''a''), (''model'', ''m''), (''output'', ''a'')] @ [LF]
   \<and> results_text (run_sequence no_limit flaky_service
        [(test_environ, [''b'', ''a'']), (test_environ, [''b'', ''a''])] no_ledger)
     = json_dumps [(''prompt'', ''a''), (''model'', ''m''), (''output'', ''a'')] @ [LF]
       @ json_dumps [(''prompt'', ''a''), (''model'', ''m''), (''output'', ''a'')] @ [LF]"
  by code_simp

section \<open>The shape of a ledger record\<close>

text \<open>
  C10. When the response to a request has at least one choice and its first choice has no
  message, the item still gets its record: the line written to the ledger is the JSON
  object with the prompt, the model name of the response, and the empty string as output.
\<close>

theorem missing_message_recorded:
  "create (service_state w) d prompt = (Return response, s) \<Longrightarrow>
   choices response = c # cs \<Longrightarrow> message c = None \<Longrightarrow>
     written_text (fst (process_item create d pc index prompt w)) =
       [json_dumps [(''prompt'', prompt), (''model'', model response), (''output'', [])] @ [LF]]
     \<and> results_file (snd (process_item create d pc index prompt w)) =
         Some (results_text w
               @ json_dumps [(''prompt'', prompt), (''model'', model response), (''output'', [])]
               @ [LF])"
  by (simp add: process_item_def Let_def results_text_def)

theorem missing_message_recorded_witness:
  "no_message_service (service_state no_ledger) ''m'' ''a''
     = (Return \<lparr>choices = [\<lparr>message = None\<rparr>], model = ''m''\<rparr>, ())
   \<and> results_file (snd (process_item no_message_service ''m'' 0 0 ''a'' no_ledger)) =
       Some (json_dumps [(''prompt'', ''a''), (''model'', ''m''), (''output'', [])] @ [LF])
   \<and> results_file (snd (snd (process_prompts no_limit test_environ no_message_service
        [''a''] no_ledger))) =
       Some (json_dumps [(''prompt'', ''a''), (''model'', ''m''), (''output'', [])] @ [LF])"
proof -
  have a: "no_message_service (service_state no_ledger) ''m'' ''a''
     = (Return \<lparr>choices = [\<lparr>message = None\<rparr>], model = ''m''\<rparr>, ())"
    by (simp add: no_message_service_def)
  have b: "choices \<lparr>choices = [\<lparr>message = None\<rparr>], model = ''m''\<rparr> = \<lparr>message = None\<rparr> # []"
    by simp
  have c: "message \<lparr>message = None\<rparr> = None"
    by simp
  have t: "results_text no_ledger = []"
    by (simp add: results_text_def no_ledger_def)
  have r: "results_file (snd (snd (process_prompts no_limit test_environ no_message_service
        [''a''] no_ledger))) =
       Some (json_dumps [(''prompt'', ''a''), (''model'', ''m''), (''output'', [])] @ [LF])"
    by code_simp
  from missing_message_recorded
    [where create = no_message_service and w = no_ledger and d = "''m''" and prompt = "''a''"
       and pc = 0 and index = 0, OF a b c] a t r
  show ?thesis
    by simp
qed












section \<open>The prompt cache\<close>

text \<open>
  What the comprehension of \<open>load_prompts\<close> raises is decided by the first line, blank lines
  apart, that is not a JSON object with the key prompt.
\<close>

lemma read_cache_first_failure:
  assumes "\<forall>line \<in> set good. strip line \<noteq> [] \<longrightarrow>
             (\<exists>items p. loads line = Some (PyDict items) \<and> map_of items ''prompt'' = Some p)"
    and "strip bad \<noteq> []"
  shows "loads bad = None \<Longrightarrow> read_cache loads (good @ bad # rest) = Inl JSONDecodeError"
    and "loads bad = Some (PyDict items) \<Longrightarrow> map_of items ''prompt'' = None \<Longrightarrow>
           read_cache loads (good @ bad # rest) = Inl KeyError"
    and "loads bad = Some v \<Longrightarrow> \<forall>items. v \<noteq> PyDict items \<Longrightarrow>
           read_cache loads (good @ bad # rest) = Inl TypeError"
proof -
  have step: "read_cache loads (good @ bad # rest) = read_cache loads (bad # rest)"
    if "read_cache loads (bad # rest) = Inl e" for e
    using assms(1) that
  proof (induction good)
    case Nil
    then show ?case by simp
  next
    case (Cons line good)
    then show ?case
      by (cases "strip line \<noteq> []") (auto simp: subscript_def)
  qed
  show "read_cache loads (good @ bad # rest) = Inl JSONDecodeError" if "loads bad = None"
    using that assms(2) step [of JSONDecodeError] by simp
  show "read_cache loads (good @ bad # rest) = Inl KeyError"
    if "loads bad = Some (PyDict items)" "map_of items ''prompt'' = None"
    using that assms(2) step [of KeyError] by (simp add: subscript_def)
  show "read_cache loads (good @ bad # rest) = Inl TypeError"
    if "loads bad = Some v" "\<forall>items. v \<noteq> PyDict items"
    using that assms(2) step [of TypeError] by (cases v) (simp_all add: subscript_def)
qed

text \<open>
  When reading the cache raises \<open>JSONDecodeError\<close> or \<open>KeyError\<close>, \<open>load_prompts\<close> returns
  the prompts of the dataset and leaves the cache it would have written had the cache file
  been missing.
\<close>

lemma load_prompts_rebuilds:
  assumes "cache_file w = Some txt" "read_cache loads (file_lines txt) = Inl e" "e \<noteq> TypeError"
  shows "load_prompts loads dataset w =
           (Inr (map PyStr dataset), [Print_invalid_cache],
            snd (snd (load_prompts loads dataset (w\<lparr>cache_file := None\<rparr>))))"
    and "fst (load_prompts loads dataset w)
           = fst (load_prompts loads dataset (w\<lparr>cache_file := None\<rparr>))"
  using assms by (cases e; simp add: load_prompts_def fetch_prompts_def)+

text \<open>
  C7, the case the code misses. The cache file holds the line \<open>[]\<close> followed by the line
  \<open>{\<close>: the first is a JSON value that is not an object, the second is malformed JSON.
  Subscripting the list with "prompt" raises \<open>TypeError\<close>, which \<open>load_prompts\<close> does not
  catch: the call raises, the cache is neither discarded nor rebuilt, and no prompt
  sequence is returned.
\<close>

theorem load_prompts_type_error:
  "loads ''[]\<newline>'' = Some (PyList []) \<Longrightarrow> cache_file w = Some ''[]\<newline>{\<newline>'' \<Longrightarrow>
     load_prompts loads dataset w = (Inl TypeError, [], w)"
proof -
  assume l: "loads ''[]\<newline>'' = Some (PyList [])" and c: "cache_file w = Some ''[]\<newline>{\<newline>''"
  have f: "file_lines ''[]\<newline>{\<newline>'' = [''[]\<newline>'', ''{\<newline>'']"
    by (simp add: file_lines_def LF_def CR_def)
  have s: "strip ''[]\<newline>'' \<noteq> []"
    by (simp add: strip_def isspace_def)
  show ?thesis
    using l c s by (simp add: load_prompts_def f subscript_def)
qed

theorem load_prompts_type_error_witness:
  "sample_loads ''[]\<newline>'' = Some (PyList [])
   \<and> cache_file (cache_of ''[]\<newline>{\<newline>'') = Some ''[]\<newline>{\<newline>''
   \<and> sample_loads ''{\<newline>'' = None
   \<and> load_prompts sample_loads [''a''] (cache_of ''[]\<newline>{\<newline>'')
       = (Inl TypeError, [], cache_of ''[]\<newline>{\<newline>'')
   \<and> fst (load_prompts sample_loads [''a''] (cache_of ''[]\<newline>{\<newline>''))
       \<noteq> fst (load_prompts sample_loads [''a'']
                (cache_of ''[]\<newline>{\<newline>''\<lparr>cache_file := None\<rparr>))"
proof -
  have a: "sample_loads ''[]\<newline>'' = Some (PyList [])"
    by (simp add: sample_loads_def)
  have b: "cache_file (cache_of ''[]\<newline>{\<newline>'') = Some ''[]\<newline>{\<newline>''"
    by (simp add: cache_of_def)
  have c: "sample_loads ''{\<newline>'' = None"
    by (simp add: sample_loads_def)
  have d: "fst (load_prompts sample_loads [''a''] (cache_of ''[]\<newline>{\<newline>''\<lparr>cache_file := None\<rparr>))
      = Inr [PyStr ''a'']"
    by (simp add: load_prompts_def fetch_prompts_def cache_of_def)
  from load_prompts_type_error
    [where loads = sample_loads and w = "cache_of ''[]\<newline>{\<newline>''" and dataset = "[''a'']", OF a b]
    a b c d
  show ?thesis
    by simp
qed

lemma load_prompts_rebuilds_example:
  "load_prompts sample_loads [''a''] (cache_of ''{\"prompt\": \"a\"}\<newline>\<newline>{}\<newline>'')
     = (Inr [PyStr ''a''], [Print_invalid_cache], cache_of ''{\"prompt\": \"a\"}\<newline>'')"
  by code_simp

end
